theory Spec2Isabelle
  imports Main "HOL-Library.Word"
begin

section \<open>Bytes and slices\<close>

text \<open>
  A Go \<open>byte\<close> is an 8-bit word. A \<open>[]byte\<close> that may be \<open>nil\<close> is a
  \<open>byte list option\<close>: \<open>None\<close> is the nil slice, \<open>Some []\<close> the empty non-nil one.
  The destination slice handed to \<open>escapeField\<close> is read for its contents and its
  capacity only, so it is a record of the two.
\<close>

type_synonym byte = "8 word"

record slice =
  elems :: "byte list"
  cap :: nat

section \<open>The field escaper (mysqltsv.go, escapeField)\<close>

text \<open>
  The \<open>switch c\<close> of the loop body: the bytes appended for one input byte, in the
  order of the source's cases.
\<close>

definition escapeByte :: "byte \<Rightarrow> byte list" where
  "escapeByte c =
     (if c = 0 then [0x5C, 0x30]
      else if c = 0x08 then [0x5C, 0x62]
      else if c = 0x0A then [0x5C, 0x6E]
      else if c = 0x0D then [0x5C, 0x72]
      else if c = 0x09 then [0x5C, 0x74]
      else if c = 26 then [0x5C, 0x5A]
      else if c = 0x5C then [0x5C, 0x5C]
      else if c = 0x22 then [0x5C, 0x22]
      else [c])"

text \<open>The loop \<open>for _, c := range data\<close>, appending to \<open>appendTo\<close>.\<close>

fun escapeLoop :: "byte list \<Rightarrow> byte list \<Rightarrow> byte list" where
  "escapeLoop appendTo [] = appendTo"
| "escapeLoop appendTo (c # data) = escapeLoop (appendTo @ escapeByte c) data"

text \<open>
  \<open>escapeField(appendTo, data)\<close>: nil data gives the two bytes \<open>\N\<close>; a destination
  whose capacity is below \<open>len(data)+2\<close> is replaced by a fresh empty slice; then the
  opening quote, the loop and the closing quote are appended.
\<close>

definition escapeField :: "slice \<Rightarrow> byte list option \<Rightarrow> byte list" where
  "escapeField appendTo data =
     (case data of
        None \<Rightarrow> [0x5C, 0x4E]
      | Some d \<Rightarrow>
          (let a0 = (if cap appendTo < length d + 2 then [] else elems appendTo);
               a1 = a0 @ [0x22];
               a2 = escapeLoop a1 d
           in a2 @ [0x22]))"

text \<open>The nil slice, passed by \<open>EscapeValue\<close> as the destination.\<close>

definition nil_slice :: slice where
  "nil_slice = \<lparr>elems = [], cap = 0\<rparr>"

subsection \<open>The escaping table as the specification words it\<close>

text \<open>
  The table of the specification, row by row: byte, then the two bytes emitted. Any byte
  that has no row is emitted as it is.
\<close>

definition escape_table :: "(byte \<times> byte list) list" where
  "escape_table =
     [(0x00, [0x5C, 0x30]),
      (0x08, [0x5C, 0x62]),
      (0x0A, [0x5C, 0x6E]),
      (0x0D, [0x5C, 0x72]),
      (0x09, [0x5C, 0x74]),
      (0x1A, [0x5C, 0x5A]),
      (0x5C, [0x5C, 0x5C]),
      (0x22, [0x5C, 0x22])]"

definition spec_emit :: "byte \<Rightarrow> byte list" where
  "spec_emit c = (case map_of escape_table c of Some e \<Rightarrow> e | None \<Rightarrow> [c])"

definition spec_escape_present :: "byte list \<Rightarrow> byte list" where
  "spec_escape_present b = [0x22] @ concat (map spec_emit b) @ [0x22]"

section \<open>Errors\<close>

text \<open>
  The Go \<open>error\<close> values the package can hold: the one \<open>valueToBytes\<close> builds with
  \<open>fmt.Errorf("can't encode type %T to TSV", v)\<close> (carrying the type's name), one returned
  by a \<open>Value()\<close> method, and one returned by the buffered writer.
\<close>

datatype error = CantEncode string | ValuerError string | SinkError string

section \<open>The output sink (bufio.Writer of the standard library)\<close>

text \<open>
  The encoder owns a \<open>*bufio.Writer\<close> and calls \<open>AvailableBuffer\<close>, \<open>Write\<close>,
  \<open>WriteByte\<close> and \<open>Flush\<close> on it. The writer belongs to the standard library, so
  its failures are a parameter of the model: \<open>outcome k\<close> is what the \<open>k\<close>-th call on
  the writer does, \<open>None\<close> for success, \<open>Some (n, x)\<close> for the error \<open>x\<close> after
  \<open>n\<close> bytes of the argument were taken. \<open>accepted\<close> is every byte the writer has
  taken so far, in order (buffered or already passed on); \<open>calls\<close> counts the calls of
  \<open>Write\<close>, \<open>WriteByte\<close> and \<open>Flush\<close>, so that a sink that was touched differs from
  one that was not. \<open>avail k\<close> is the capacity of the available buffer before call
  \<open>k\<close>. The \<open>io.Writer\<close> under the buffered writer fixes both parameters;
  \<open>bufio.NewWriter\<close> starts with nothing taken and no call made.
\<close>

record io_writer =
  fails :: "nat \<Rightarrow> (nat \<times> error) option"
  room :: "nat \<Rightarrow> nat"

record sink =
  accepted :: "byte list"
  calls :: nat
  outcome :: "nat \<Rightarrow> (nat \<times> error) option"
  avail :: "nat \<Rightarrow> nat"

definition NewWriter :: "io_writer \<Rightarrow> sink" where
  "NewWriter wr = \<lparr>accepted = [], calls = 0, outcome = fails wr, avail = room wr\<rparr>"

definition AvailableBuffer :: "sink \<Rightarrow> slice" where
  "AvailableBuffer s = \<lparr>elems = [], cap = avail s (calls s)\<rparr>"

definition Write :: "byte list \<Rightarrow> sink \<Rightarrow> error option \<times> sink" where
  "Write p s =
     (case outcome s (calls s) of
        None \<Rightarrow> (None, s\<lparr>accepted := accepted s @ p, calls := Suc (calls s)\<rparr>)
      | Some (n, x) \<Rightarrow> (Some x, s\<lparr>accepted := accepted s @ take n p, calls := Suc (calls s)\<rparr>))"

definition WriteByte :: "byte \<Rightarrow> sink \<Rightarrow> error option \<times> sink" where
  "WriteByte c s =
     (case outcome s (calls s) of
        None \<Rightarrow> (None, s\<lparr>accepted := accepted s @ [c], calls := Suc (calls s)\<rparr>)
      | Some (n, x) \<Rightarrow> (Some x, s\<lparr>calls := Suc (calls s)\<rparr>))"

definition Flush :: "sink \<Rightarrow> error option \<times> sink" where
  "Flush s =
     (case outcome s (calls s) of
        None \<Rightarrow> (None, s\<lparr>calls := Suc (calls s)\<rparr>)
      | Some (n, x) \<Rightarrow> (Some x, s\<lparr>calls := Suc (calls s)\<rparr>))"

section \<open>Decimal formatting (strconv.FormatInt, strconv.FormatUint, base 10)\<close>

fun digits :: "nat \<Rightarrow> byte list" where
  "digits n = (if n < 10 then [0x30 + of_nat n] else digits (n div 10) @ [0x30 + of_nat (n mod 10)])"

declare digits.simps [simp del]

definition FormatUint :: "nat \<Rightarrow> byte list" where
  "FormatUint n = digits n"

definition FormatInt :: "int \<Rightarrow> byte list" where
  "FormatInt i = (if i < 0 then 0x2D # digits (nat (- i)) else digits (nat i))"

section \<open>Date and time values (package time of the standard library)\<close>

text \<open>
  A \<open>time.Time\<close> is an instant (seconds since the Unix epoch and nanoseconds within
  the second) with a location; a \<open>*time.Location\<close> gives the offset from UTC, in
  seconds, in force at an instant. \<open>In\<close> keeps the instant and changes the location.
  \<open>Clock\<close>, \<open>Nanosecond\<close> and \<open>Format\<close> read the wall clock of the location;
  \<open>Format\<close> is modelled for the three layouts \<open>valueToBytes\<close> uses.
\<close>

type_synonym location = "int \<Rightarrow> int"

record go_time =
  unix :: int
  nsec :: nat
  loc :: location

definition In :: "go_time \<Rightarrow> location \<Rightarrow> go_time" where
  "In t l = t\<lparr>loc := l\<rparr>"

definition local_seconds :: "go_time \<Rightarrow> int" where
  "local_seconds t = unix t + loc t (unix t)"

definition Clock :: "go_time \<Rightarrow> nat \<times> nat \<times> nat" where
  "Clock t =
     (let s = nat (local_seconds t mod 86400)
      in (s div 3600, (s mod 3600) div 60, s mod 60))"

definition Nanosecond :: "go_time \<Rightarrow> nat" where
  "Nanosecond t = nsec t"

text \<open>Year, month and day of the proleptic Gregorian calendar, from the day number.\<close>

definition civil :: "int \<Rightarrow> int \<times> nat \<times> nat" where
  "civil days =
     (let z = days + 719468;
          era = z div 146097;
          doe = z - era * 146097;
          yoe = (doe - doe div 1460 + doe div 36524 - doe div 146096) div 365;
          y = yoe + era * 400;
          doy = doe - (365 * yoe + yoe div 4 - yoe div 100);
          mp = (5 * doy + 2) div 153;
          d = doy - (153 * mp + 2) div 5 + 1;
          m = (if mp < 10 then mp + 3 else mp - 9)
      in ((if m \<le> 2 then y + 1 else y), nat m, nat d))"

definition Date :: "go_time \<Rightarrow> int \<times> nat \<times> nat" where
  "Date t = civil (local_seconds t div 86400)"

definition zero_pad :: "nat \<Rightarrow> byte list \<Rightarrow> byte list" where
  "zero_pad width ds = replicate (width - length ds) 0x30 @ ds"

definition appendInt :: "int \<Rightarrow> nat \<Rightarrow> byte list" where
  "appendInt x width =
     (if x < 0 then 0x2D # zero_pad width (digits (nat (- x))) else zero_pad width (digits (nat x)))"

text \<open>
  The fraction of the layout \<open>.999999999\<close>: nothing when the nanoseconds are zero,
  else a dot and the nine digits with the trailing zeros cut.
\<close>

definition appendNano :: "nat \<Rightarrow> byte list" where
  "appendNano ns =
     (if ns = 0 then []
      else 0x2E # rev (dropWhile (\<lambda>c. c = 0x30) (rev (zero_pad 9 (digits ns)))))"

datatype layout = DateOnly | DateTime | DateTimeFrac

definition format_date :: "go_time \<Rightarrow> byte list" where
  "format_date t =
     (case Date t of (y, m, d) \<Rightarrow>
        appendInt y 4 @ [0x2D] @ zero_pad 2 (digits m) @ [0x2D] @ zero_pad 2 (digits d))"

definition format_clock :: "go_time \<Rightarrow> byte list" where
  "format_clock t =
     (case Clock t of (h, m, s) \<Rightarrow>
        zero_pad 2 (digits h) @ [0x3A] @ zero_pad 2 (digits m) @ [0x3A] @ zero_pad 2 (digits s))"

fun Format :: "go_time \<Rightarrow> layout \<Rightarrow> byte list" where
  "Format t DateOnly = format_date t"
| "Format t DateTime = format_date t @ [0x20] @ format_clock t"
| "Format t DateTimeFrac = format_date t @ [0x20] @ format_clock t @ appendNano (Nanosecond t)"

section \<open>The value converter (mysqltsv.go, valueToBytes)\<close>

text \<open>
  The dynamic values \<open>valueToBytes\<close> can be handed, by dynamic type. A Go string is a
  byte sequence. \<open>GoValuer tn v x\<close> is a value of a type named \<open>tn\<close> that implements
  \<open>driver.Valuer\<close>, whose \<open>Value()\<close> returns the pair \<open>(v, x)\<close>; none of the types
  of the switch has that method. \<open>GoOther tn\<close> is a value of any other type, named
  \<open>tn\<close>.
\<close>

record EncoderOptions =
  Location :: "location option"

datatype go_value =
    GoString "byte list"
  | GoBytes "byte list option"
  | GoRawMessage "byte list option"
  | GoUint8 "8 word"
  | GoInt8 "8 word"
  | GoUint16 "16 word"
  | GoInt16 "16 word"
  | GoUint32 "32 word"
  | GoInt32 "32 word"
  | GoUint64 "64 word"
  | GoInt64 "64 word"
  | GoInt "64 word"
  | GoUint "64 word"
  | GoNil
  | GoBool bool
  | GoTime go_time
  | GoValuer string go_value "error option"
  | GoOther string

text \<open>The type switch, in the order of the source's cases.\<close>

fun typeSwitch :: "go_value \<Rightarrow> EncoderOptions option \<Rightarrow> error + byte list option" where
  "typeSwitch (GoString v) cfg = Inr (Some v)"
| "typeSwitch (GoBytes v) cfg = Inr v"
| "typeSwitch (GoRawMessage v) cfg = Inr v"
| "typeSwitch (GoUint8 v) cfg = Inr (Some (FormatUint (unat v)))"
| "typeSwitch (GoInt8 v) cfg = Inr (Some (FormatInt (sint v)))"
| "typeSwitch (GoUint16 v) cfg = Inr (Some (FormatUint (unat v)))"
| "typeSwitch (GoInt16 v) cfg = Inr (Some (FormatInt (sint v)))"
| "typeSwitch (GoUint32 v) cfg = Inr (Some (FormatUint (unat v)))"
| "typeSwitch (GoInt32 v) cfg = Inr (Some (FormatInt (sint v)))"
| "typeSwitch (GoUint64 v) cfg = Inr (Some (FormatUint (unat v)))"
| "typeSwitch (GoInt64 v) cfg = Inr (Some (FormatInt (sint v)))"
| "typeSwitch (GoInt v) cfg = Inr (Some (FormatInt (sint v)))"
| "typeSwitch (GoUint v) cfg = Inr (Some (FormatUint (unat v)))"
| "typeSwitch GoNil cfg = Inr None"
| "typeSwitch (GoBool v) cfg = (if v then Inr (Some [0x31]) else Inr (Some [0x30]))"
| "typeSwitch (GoTime t) cfg =
     (let v = (case cfg of
                 None \<Rightarrow> t
               | Some c \<Rightarrow> (case Location c of None \<Rightarrow> t | Some l \<Rightarrow> In t l))
      in case Clock v of (hour, mn, sec) \<Rightarrow>
           (let ns = Nanosecond v
            in if hour = 0 \<and> mn = 0 \<and> sec = 0 \<and> ns = 0 then Inr (Some (Format v DateOnly))
               else if ns = 0 then Inr (Some (Format v DateTime))
               else Inr (Some (Format v DateTimeFrac))))"
| "typeSwitch (GoValuer tn v x) cfg = Inl (CantEncode tn)"
| "typeSwitch (GoOther tn) cfg = Inl (CantEncode tn)"

text \<open>
  \<open>valueToBytes\<close>: a \<open>driver.Valuer\<close> is asked for its value first; its error is
  returned as it is, its value replaces \<open>v\<close>; then the type switch runs.
\<close>

fun valueToBytes :: "go_value \<Rightarrow> EncoderOptions option \<Rightarrow> error + byte list option" where
  "valueToBytes (GoValuer tn v x) cfg =
     (case x of Some e \<Rightarrow> Inl e | None \<Rightarrow> typeSwitch v cfg)"
| "valueToBytes v cfg = typeSwitch v cfg"

definition EscapeValue :: "go_value \<Rightarrow> EncoderOptions option \<Rightarrow> error + byte list" where
  "EscapeValue v cfg =
     (case valueToBytes v cfg of
        Inl e \<Rightarrow> Inl e
      | Inr b \<Rightarrow> Inr (escapeField nil_slice b))"

section \<open>The row encoder (mysqltsv.go, Encoder)\<close>

text \<open>
  A Go \<open>int\<close> is a 64-bit signed integer; \<open>go_int\<close> wraps a mathematical integer into
  its range, as \<open>colsLeftInRow--\<close> does.
\<close>

definition go_int :: "int \<Rightarrow> int" where
  "go_int x = (x + 2 ^ 63) mod 2 ^ 64 - 2 ^ 63"

record Encoder =
  w :: sink
  numColumnsPerRow :: int
  colsLeftInRow :: int
  err :: "error option"
  encoderOptions :: "EncoderOptions option"

definition NewEncoder :: "io_writer \<Rightarrow> int \<Rightarrow> EncoderOptions option \<Rightarrow> Encoder" where
  "NewEncoder wr numColumns cfg =
     \<lparr>w = NewWriter wr, numColumnsPerRow = numColumns, colsLeftInRow = numColumns, err = None,
      encoderOptions = cfg\<rparr>"

definition writeField :: "byte list option \<Rightarrow> Encoder \<Rightarrow> Encoder" where
  "writeField b e =
     (let buf = AvailableBuffer (w e) in
      case Write (escapeField buf b) (w e) of (r1, s1) \<Rightarrow>
        (let e1 = e\<lparr>w := s1, err := r1\<rparr> in
         if err e1 \<noteq> None then e1
         else
           (let e2 = e1\<lparr>colsLeftInRow := go_int (colsLeftInRow e1 - 1)\<rparr> in
            if colsLeftInRow e2 = 0
            then (case WriteByte 0x0A (w e2) of (r2, s2) \<Rightarrow>
                    e2\<lparr>w := s2, err := r2, colsLeftInRow := numColumnsPerRow e2\<rparr>)
            else (case WriteByte 0x09 (w e2) of (r2, s2) \<Rightarrow>
                    e2\<lparr>w := s2, err := r2\<rparr>))))"

definition AppendBytes :: "byte list option \<Rightarrow> Encoder \<Rightarrow> Encoder" where
  "AppendBytes b e = (if err e \<noteq> None then e else writeField b e)"

definition AppendString :: "byte list \<Rightarrow> Encoder \<Rightarrow> Encoder" where
  "AppendString s e = AppendBytes (Some s) e"

definition AppendValue :: "go_value \<Rightarrow> Encoder \<Rightarrow> Encoder" where
  "AppendValue v e =
     (if err e \<noteq> None then e
      else case valueToBytes v (encoderOptions e) of
             Inl x \<Rightarrow> e\<lparr>err := Some x\<rparr>
           | Inr b \<Rightarrow> writeField b e)"

definition Close :: "Encoder \<Rightarrow> error option \<times> Encoder" where
  "Close e =
     (if err e \<noteq> None then (err e, e)
      else case Flush (w e) of
             (Some x, s) \<Rightarrow> (Some x, e\<lparr>w := s\<rparr>)
           | (None, s) \<Rightarrow> (None, e\<lparr>w := s\<rparr>))"

definition Error :: "Encoder \<Rightarrow> error option" where
  "Error e = err e"

subsection \<open>Sequences of calls\<close>

text \<open>
  What a caller can do with an encoder, and the state a sequence of such calls leaves
  (the values \<open>Close\<close> and \<open>Error\<close> return are read off the state by the functions
  above).
\<close>

datatype call =
    CallAppendBytes "byte list option"
  | CallAppendString "byte list"
  | CallAppendValue go_value
  | CallClose
  | CallError

fun perform :: "call \<Rightarrow> Encoder \<Rightarrow> Encoder" where
  "perform (CallAppendBytes b) e = AppendBytes b e"
| "perform (CallAppendString s) e = AppendString s e"
| "perform (CallAppendValue v) e = AppendValue v e"
| "perform CallClose e = snd (Close e)"
| "perform CallError e = e"

fun run :: "call list \<Rightarrow> Encoder \<Rightarrow> Encoder" where
  "run [] e = e"
| "run (c # cs) e = run cs (perform c e)"

section \<open>The paired reader's decoding of one field\<close>

text \<open>
  Modelled from the spec: the reader that decodes a field. The repository has no decoder;
  the reader is the import statement configured by the constant \<open>Escaping\<close> (fields
  optionally enclosed by a double quote, escaped by a backslash). The specification's
  table is read from right to left: after a backslash, \<open>0\<close>, \<open>b\<close>, \<open>n\<close>, \<open>r\<close>,
  \<open>t\<close> and \<open>Z\<close> stand for the bytes 0x00, 0x08, 0x0A, 0x0D, 0x09 and 0x1A, and any
  other byte stands for itself; the field \<open>\N\<close> is NULL; an enclosing quote at the front
  is dropped and a quote that is not escaped closes the field.
\<close>

definition unescapeByte :: "byte \<Rightarrow> byte" where
  "unescapeByte c =
     (if c = 0x30 then 0x00
      else if c = 0x62 then 0x08
      else if c = 0x6E then 0x0A
      else if c = 0x72 then 0x0D
      else if c = 0x74 then 0x09
      else if c = 0x5A then 0x1A
      else c)"

fun unescapeBody :: "byte list \<Rightarrow> byte list" where
  "unescapeBody [] = []"
| "unescapeBody (c # cs) =
     (if c = 0x5C then (case cs of [] \<Rightarrow> [] | d # ds \<Rightarrow> unescapeByte d # unescapeBody ds)
      else if c = 0x22 then []
      else c # unescapeBody cs)"

definition unescape :: "byte list \<Rightarrow> byte list option" where
  "unescape f =
     (if f = [0x5C, 0x4E] then None
      else case f of
             [] \<Rightarrow> Some []
           | c # cs \<Rightarrow> if c = 0x22 then Some (unescapeBody cs) else Some (unescapeBody f))"

section \<open>Separators\<close>

text \<open>The raw bytes that terminate a field (tab) or a row (newline) in the output.\<close>

definition is_sep :: "byte \<Rightarrow> bool" where
  "is_sep c = (c = 0x09 \<or> c = 0x0A)"

section \<open>Invariants, and the framing of rows as the specification words it\<close>

text \<open>
  Between two calls the counter of an encoder over \<open>N\<close> columns lies between 1 and
  \<open>N\<close> (it is 0 only inside \<open>writeField\<close>, between the decrement and the reset).
\<close>

definition counter_ok :: "int \<Rightarrow> Encoder \<Rightarrow> bool" where
  "counter_ok N e = (numColumnsPerRow e = N \<and> 1 \<le> colsLeftInRow e \<and> colsLeftInRow e \<le> N)"

text \<open>A sink none of whose calls fails.\<close>

definition all_succeed :: "sink \<Rightarrow> bool" where
  "all_succeed s = (\<forall>k. outcome s k = None)"

text \<open>
  The field an append call hands to \<open>writeField\<close> when its conversion succeeds, and
  that field escaped.
\<close>

fun appended_field :: "EncoderOptions option \<Rightarrow> call \<Rightarrow> byte list option option" where
  "appended_field cfg (CallAppendBytes b) = Some b"
| "appended_field cfg (CallAppendString s) = Some (Some s)"
| "appended_field cfg (CallAppendValue v) =
     (case valueToBytes v cfg of Inl x \<Rightarrow> None | Inr b \<Rightarrow> Some b)"
| "appended_field cfg CallClose = None"
| "appended_field cfg CallError = None"

definition escaped_field :: "EncoderOptions option \<Rightarrow> call \<Rightarrow> byte list" where
  "escaped_field cfg c =
     (case appended_field cfg c of None \<Rightarrow> [] | Some b \<Rightarrow> escapeField nil_slice b)"

text \<open>
  A row on the wire: its escaped fields with one tab between neighbours, then one
  newline. Nothing before the first field, no tab after the last.
\<close>

fun join_fields :: "byte list list \<Rightarrow> byte list" where
  "join_fields [] = []"
| "join_fields [f] = f"
| "join_fields (f # g # fs) = f @ [0x09] @ join_fields (g # fs)"

definition row_bytes :: "byte list list \<Rightarrow> byte list" where
  "row_bytes fs = join_fields fs @ [0x0A]"

text \<open>
  The terminator written after the \<open>i\<close>-th field of a stream (counting from 0) with
  \<open>n\<close> columns per row, and the terminators of the first \<open>k\<close> fields.
\<close>

definition terminator :: "nat \<Rightarrow> nat \<Rightarrow> byte" where
  "terminator n i = (if Suc i mod n = 0 then 0x0A else 0x09)"

definition term_seq :: "nat \<Rightarrow> nat \<Rightarrow> byte list" where
  "term_seq n k = map (terminator n) [0..<k]"

text \<open>
  The raw separator bytes of the output are the terminators of the fields written so far,
  and the counter agrees with their number.
\<close>

definition seps_ok :: "nat \<Rightarrow> Encoder \<Rightarrow> bool" where
  "seps_ok n e =
     (let k = length (filter is_sep (accepted (w e)))
      in filter is_sep (accepted (w e)) = term_seq n k
         \<and> numColumnsPerRow e = int n
         \<and> (err e = None \<longrightarrow> colsLeftInRow e = int (n - k mod n)))"

subsection \<open>Writers used as concrete inputs\<close>

text \<open>A writer that never fails, and one whose \<open>j\<close>-th call fails.\<close>

definition ok_writer :: io_writer where
  "ok_writer = \<lparr>fails = (\<lambda>k. None), room = (\<lambda>k. 4096)\<rparr>"

definition failing_writer :: "nat \<Rightarrow> io_writer" where
  "failing_writer j =
     \<lparr>fails = (\<lambda>k. if k = j then Some (0, SinkError ''closed'') else None), room = (\<lambda>k. 4096)\<rparr>"

section \<open>The conversion of date and time values as the specification words it\<close>



text \<open>Whether a value's dynamic type implements \<open>driver.Valuer\<close>.\<close>

definition is_Valuer :: "go_value \<Rightarrow> bool" where
  "is_Valuer v = (case v of GoValuer tn r x \<Rightarrow> True | _ \<Rightarrow> False)"

section \<open>Properties of the field escaper\<close>

lemma escapeLoop_concat: "escapeLoop acc d = acc @ concat (map escapeByte d)"
  by (induction d arbitrary: acc) simp_all

lemma escapeByte_spec_emit: "escapeByte = spec_emit"
  by (rule ext) (simp add: escapeByte_def spec_emit_def escape_table_def)

lemma escapeField_Some:
  "escapeField a (Some d) =
     (if cap a < length d + 2 then [] else elems a) @ [0x22] @ concat (map escapeByte d) @ [0x22]"
  by (simp add: escapeField_def escapeLoop_concat Let_def)

lemma escapeField_empty_dest:
  "escapeField \<lparr>elems = [], cap = n\<rparr> (Some d) = [0x22] @ concat (map escapeByte d) @ [0x22]"
  by (simp add: escapeField_Some)

text \<open>
  C1. For every non-nil byte sequence, written into an empty destination (the only kind
  the package passes: nil in \<open>EscapeValue\<close>, the zero-length available buffer in
  \<open>writeField\<close>), the escaper returns one quote byte, then every input byte in order
  mapped by the table of the specification (bytes without a row unchanged), then one
  quote byte.
\<close>

theorem C1_escapeField_table:
  "escapeField \<lparr>elems = [], cap = n\<rparr> (Some b) = spec_escape_present b"
  by (simp add: escapeField_empty_dest spec_escape_present_def escapeByte_spec_emit)

theorem C1_escapeField_table_witness:
  "escapeField \<lparr>elems = [], cap = 0\<rparr> (Some [0x00, 0x08, 0x0A, 0x0D, 0x09, 0x1A, 0x5C, 0x22, 0x41, 0xFF])
     = [0x22, 0x5C, 0x30, 0x5C, 0x62, 0x5C, 0x6E, 0x5C, 0x72, 0x5C, 0x74, 0x5C, 0x5A,
        0x5C, 0x5C, 0x5C, 0x22, 0x41, 0xFF, 0x22]"
  using C1_escapeField_table [of 0 "[0x00, 0x08, 0x0A, 0x0D, 0x09, 0x1A, 0x5C, 0x22, 0x41, 0xFF]"]
  by (simp add: spec_escape_present_def spec_emit_def escape_table_def)

subsection \<open>The NULL marker\<close>

lemma escapeField_None: "escapeField a None = [0x5C, 0x4E]"
  by (simp add: escapeField_def)

lemma escapeField_Some_last: "last (escapeField a (Some d)) = 0x22"
  by (simp add: escapeField_Some)

lemma escapeField_Some_not_null: "escapeField a (Some d) \<noteq> [0x5C, 0x4E]"
proof
  assume "escapeField a (Some d) = [0x5C, 0x4E]"
  then have "last (escapeField a (Some d)) = (0x4E :: byte)"
    by simp
  then show False
    by (simp add: escapeField_Some_last)
qed

text \<open>
  C2. The nil input escapes to the two bytes backslash, \<open>N\<close>, with no quotes; no non-nil
  input escapes to these two bytes, whatever the destination; the empty non-nil input
  escapes to two quote bytes.
\<close>

theorem C2_null_marker:
  "escapeField a None = [0x5C, 0x4E]
   \<and> escapeField a' (Some d) \<noteq> [0x5C, 0x4E]
   \<and> escapeField \<lparr>elems = [], cap = n\<rparr> (Some []) = [0x22, 0x22]"
  by (simp add: escapeField_None escapeField_Some_not_null escapeField_empty_dest)

theorem C2_null_marker_witness:
  "escapeField nil_slice None = [0x5C, 0x4E]
   \<and> escapeField nil_slice (Some [0x5C, 0x4E]) \<noteq> [0x5C, 0x4E]
   \<and> escapeField nil_slice (Some [0x5C, 0x4E]) = [0x22, 0x5C, 0x5C, 0x4E, 0x22]
   \<and> escapeField \<lparr>elems = [], cap = 0\<rparr> (Some []) = [0x22, 0x22]"
  using C2_null_marker [of nil_slice nil_slice "[0x5C, 0x4E]" 0]
  by (simp add: escapeField_Some nil_slice_def escapeByte_def)

subsection \<open>Round trip through the reader\<close>

lemma unescapeBody_escapeByte:
  "unescapeBody (escapeByte c @ rest) = c # unescapeBody rest"
  by (simp add: escapeByte_def unescapeByte_def)

lemma unescapeBody_escaped:
  "unescapeBody (concat (map escapeByte b) @ [0x22]) = b"
proof (induction b)
  case Nil
  show ?case by simp
next
  case (Cons c b)
  have "unescapeBody (concat (map escapeByte (c # b)) @ [0x22])
          = unescapeBody (escapeByte c @ (concat (map escapeByte b) @ [0x22]))"
    by simp
  also have "\<dots> = c # unescapeBody (concat (map escapeByte b) @ [0x22])"
    by (rule unescapeBody_escapeByte)
  finally show ?case
    using Cons.IH by simp
qed

text \<open>
  C3. For every byte sequence \<open>b\<close>, the reader's decoding of the escaped field is
  \<open>b\<close> again, byte for byte; and the reader decodes the escaped nil input as NULL.
\<close>

theorem C3_round_trip:
  "unescape (escapeField \<lparr>elems = [], cap = n\<rparr> (Some b)) = Some b
   \<and> unescape (escapeField a None) = None"
proof -
  have "unescape ([0x22] @ concat (map escapeByte b) @ [0x22]) = Some b"
    by (simp add: unescape_def unescapeBody_escaped)
  then show ?thesis
    by (simp add: escapeField_empty_dest escapeField_None unescape_def)
qed

theorem C3_round_trip_witness:
  "unescape (escapeField \<lparr>elems = [], cap = 0\<rparr> (Some [0x00, 0x0A, 0x09, 0x5C, 0x22, 0x4E, 0xFF]))
     = Some [0x00, 0x0A, 0x09, 0x5C, 0x22, 0x4E, 0xFF]
   \<and> escapeField \<lparr>elems = [], cap = 0\<rparr> (Some [0x00, 0x0A, 0x09, 0x5C, 0x22, 0x4E, 0xFF])
     = [0x22, 0x5C, 0x30, 0x5C, 0x6E, 0x5C, 0x74, 0x5C, 0x5C, 0x5C, 0x22, 0x4E, 0xFF, 0x22]
   \<and> unescape (escapeField nil_slice None) = None"
  using C3_round_trip [of 0 "[0x00, 0x0A, 0x09, 0x5C, 0x22, 0x4E, 0xFF]" nil_slice]
  by (simp add: escapeField_Some escapeByte_def)

subsection \<open>No raw separator inside a field\<close>

lemma escapeByte_no_sep: "filter is_sep (escapeByte c) = []"
  by (simp add: escapeByte_def is_sep_def)

lemma concat_escapeByte_no_sep: "filter is_sep (concat (map escapeByte d)) = []"
  by (induction d) (simp_all add: escapeByte_no_sep)

lemma escapeField_no_sep: "filter is_sep (escapeField \<lparr>elems = [], cap = n\<rparr> data) = []"
proof (cases data)
  case None
  then show ?thesis by (simp add: escapeField_None is_sep_def)
next
  case (Some d)
  then show ?thesis
    by (simp add: escapeField_empty_dest concat_escapeByte_no_sep) (simp add: is_sep_def)
qed

lemma filter_sep_take: "filter is_sep xs = [] \<Longrightarrow> filter is_sep (take k xs) = []"
  by (metis append_take_drop_id filter_append append_is_Nil_conv)

section \<open>Properties of the row encoder\<close>

subsection \<open>The latched error\<close>

lemma perform_latched: "err e \<noteq> None \<Longrightarrow> perform c e = e"
  by (cases c) (auto simp: AppendBytes_def AppendString_def AppendValue_def Close_def)

lemma run_latched: "err e \<noteq> None \<Longrightarrow> run cs e = e"
  by (induction cs) (simp_all add: perform_latched)

text \<open>
  C5. Once an error is latched, every later append (\<open>AppendBytes\<close>, \<open>AppendString\<close>,
  \<open>AppendValue\<close>) returns the encoder as it was: the sink (no byte written, no call
  made), the counter and the latched error are unchanged. So after any sequence of
  calls \<open>Close\<close> and \<open>Error\<close> still report that first error.
\<close>

theorem C5_error_latched:
  assumes "err e = Some x"
  shows "AppendBytes b e = e \<and> AppendString s e = e \<and> AppendValue v e = e
         \<and> run cs e = e \<and> fst (Close (run cs e)) = Some x \<and> Error (run cs e) = Some x"
proof -
  from assms have l: "err e \<noteq> None"
    by simp
  have "run cs e = e"
    using l by (rule run_latched)
  moreover have "fst (Close e) = Some x" and "Error e = Some x"
    using assms by (simp_all add: Close_def Error_def)
  moreover have "AppendBytes b e = e" and "AppendString s e = e" and "AppendValue v e = e"
    using l by (simp_all add: AppendBytes_def AppendString_def AppendValue_def)
  ultimately show ?thesis
    by simp
qed

theorem C5_error_latched_witness:
  "err (AppendValue (GoOther ''float64'') (NewEncoder ok_writer 2 None)) = Some (CantEncode ''float64'')
   \<and> AppendBytes (Some [0x41]) (AppendValue (GoOther ''float64'') (NewEncoder ok_writer 2 None))
       = AppendValue (GoOther ''float64'') (NewEncoder ok_writer 2 None)
   \<and> run [CallAppendBytes None, CallAppendValue (GoOther ''bar'')]
         (AppendValue (GoOther ''float64'') (NewEncoder ok_writer 2 None))
       = AppendValue (GoOther ''float64'') (NewEncoder ok_writer 2 None)
   \<and> fst (Close (run [CallAppendBytes None, CallAppendValue (GoOther ''bar'')]
         (AppendValue (GoOther ''float64'') (NewEncoder ok_writer 2 None)))) = Some (CantEncode ''float64'')
   \<and> accepted (w (AppendValue (GoOther ''float64'') (NewEncoder ok_writer 2 None))) = []"
proof -
  have h: "err (AppendValue (GoOther ''float64'') (NewEncoder ok_writer 2 None)) = Some (CantEncode ''float64'')"
    by (simp add: AppendValue_def NewEncoder_def)
  have a: "accepted (w (AppendValue (GoOther ''float64'') (NewEncoder ok_writer 2 None))) = []"
    by (simp add: AppendValue_def NewEncoder_def NewWriter_def)
  show ?thesis
    using h a
      C5_error_latched [OF h, of "Some [0x41]" "[]" GoNil "[CallAppendBytes None, CallAppendValue (GoOther ''bar'')]"]
    by (simp add: Close_def)
qed

subsection \<open>Close\<close>

text \<open>
  C6. \<open>Close\<close> with an error latched returns that error and the encoder as it was (the
  sink is not flushed, nothing is written). With no error latched it flushes the sink
  and returns what the flush returned; the encoder's error stays unset.
\<close>

theorem C6_close:
  "(err e = Some x \<longrightarrow> Close e = (Some x, e))
   \<and> (err e = None \<longrightarrow>
        Close e = (fst (Flush (w e)), e\<lparr>w := snd (Flush (w e))\<rparr>)
        \<and> err (snd (Close e)) = None)"
  by (auto simp: Close_def split: prod.splits option.splits)

theorem C6_close_witness:
  "Close (AppendValue (GoOther ''float64'') (NewEncoder ok_writer 2 None))
     = (Some (CantEncode ''float64''), AppendValue (GoOther ''float64'') (NewEncoder ok_writer 2 None))
   \<and> fst (Close (NewEncoder (failing_writer 0) 2 None)) = Some (SinkError ''closed'')
   \<and> err (snd (Close (NewEncoder (failing_writer 0) 2 None))) = None
   \<and> calls (w (snd (Close (NewEncoder (failing_writer 0) 2 None)))) = 1
   \<and> fst (Close (NewEncoder ok_writer 2 None)) = None"
proof -
  have h: "err (AppendValue (GoOther ''float64'') (NewEncoder ok_writer 2 None)) = Some (CantEncode ''float64'')"
    by (simp add: AppendValue_def NewEncoder_def)
  have n: "err (NewEncoder (failing_writer 0) 2 None) = None" "err (NewEncoder ok_writer 2 None) = None"
    by (simp_all add: NewEncoder_def)
  show ?thesis
    using h n
      C6_close [of "AppendValue (GoOther ''float64'') (NewEncoder ok_writer 2 None)" "CantEncode ''float64''"]
      C6_close [of "NewEncoder (failing_writer 0) 2 None" x]
      C6_close [of "NewEncoder ok_writer 2 None" x]
    by (simp add: Flush_def NewEncoder_def NewWriter_def failing_writer_def ok_writer_def)
qed

subsection \<open>The counter\<close>

lemma go_int_id: "- (2 ^ 63) \<le> x \<Longrightarrow> x < 2 ^ 63 \<Longrightarrow> go_int x = x"
  by (simp add: go_int_def)

lemma writeField_counter:
  assumes "N < 2 ^ 63" and "counter_ok N e"
  shows "counter_ok N (writeField b e)"
proof -
  from assms have c: "numColumnsPerRow e = N" "1 \<le> colsLeftInRow e" "colsLeftInRow e \<le> N"
    by (simp_all add: counter_ok_def)
  then have g: "go_int (colsLeftInRow e - 1) = colsLeftInRow e - 1"
    using assms(1) by (intro go_int_id) simp_all
  show ?thesis
    using c g
    by (auto simp: counter_ok_def writeField_def Let_def split: prod.splits)
qed

lemma perform_counter:
  assumes "N < 2 ^ 63" and "counter_ok N e"
  shows "counter_ok N (perform c e)"
proof (cases c)
  case (CallAppendBytes b)
  then show ?thesis
    using assms by (simp add: AppendBytes_def writeField_counter)
next
  case (CallAppendString s)
  then show ?thesis
    using assms by (simp add: AppendString_def AppendBytes_def writeField_counter)
next
  case (CallAppendValue v)
  show ?thesis
  proof (cases "valueToBytes v (encoderOptions e)")
    case (Inl x)
    then show ?thesis
      using assms CallAppendValue by (simp add: AppendValue_def counter_ok_def)
  next
    case (Inr b)
    then show ?thesis
      using assms CallAppendValue by (simp add: AppendValue_def writeField_counter)
  qed
next
  case CallClose
  then show ?thesis
    using assms by (auto simp: Close_def counter_ok_def split: prod.splits option.splits)
next
  case CallError
  then show ?thesis
    using assms by simp
qed

lemma run_counter:
  "N < 2 ^ 63 \<Longrightarrow> counter_ok N e \<Longrightarrow> counter_ok N (run cs e)"
  by (induction cs arbitrary: e) (simp_all add: perform_counter)

lemma NewEncoder_counter: "0 < N \<Longrightarrow> counter_ok N (NewEncoder wr N cfg)"
  by (simp add: counter_ok_def NewEncoder_def)


text \<open>
  C9. An encoder made by \<open>NewEncoder\<close> with a positive number of columns (a Go
  \<open>int\<close>, so below \<open>2 ^ 63\<close>) has its counter between 0 and the number of columns
  at construction and after every sequence of calls (\<open>AppendBytes\<close>, \<open>AppendString\<close>,
  \<open>AppendValue\<close>, \<open>Close\<close>, \<open>Error\<close>), whatever the sink and the conversions do;
  the number of columns never changes. Between calls the counter is even at least 1
  (\<open>run_counter\<close>).
\<close>

theorem C9_counter_invariant:
  assumes "0 < N" and "N < 2 ^ 63"
  shows "0 \<le> colsLeftInRow (NewEncoder wr N cfg)
         \<and> colsLeftInRow (NewEncoder wr N cfg) \<le> numColumnsPerRow (NewEncoder wr N cfg)
         \<and> 0 \<le> colsLeftInRow (run cs (NewEncoder wr N cfg))
         \<and> colsLeftInRow (run cs (NewEncoder wr N cfg)) \<le> numColumnsPerRow (run cs (NewEncoder wr N cfg))
         \<and> numColumnsPerRow (run cs (NewEncoder wr N cfg)) = N"
proof -
  have "counter_ok N (run cs (NewEncoder wr N cfg))"
    using assms by (intro run_counter NewEncoder_counter)
  moreover have "counter_ok N (NewEncoder wr N cfg)"
    using assms by (intro NewEncoder_counter)
  ultimately show ?thesis
    by (simp add: counter_ok_def)
qed

text \<open>The equations that evaluate the encoder on a concrete input.\<close>

lemmas eval_encoder =
  NewEncoder_def NewWriter_def AppendBytes_def AppendString_def AppendValue_def Close_def
  writeField_def Write_def WriteByte_def Flush_def AvailableBuffer_def Let_def go_int_def
  escapeField_def escapeByte_def ok_writer_def failing_writer_def

theorem C9_counter_invariant_witness:
  "(0::int) < 2 \<and> (2::int) < 2 ^ 63
   \<and> colsLeftInRow (run [CallAppendBytes (Some [0x41]), CallAppendValue (GoOther ''float64''),
                          CallAppendBytes None, CallClose] (NewEncoder (failing_writer 1) 2 None)) = 1
   \<and> numColumnsPerRow (run [CallAppendBytes (Some [0x41]), CallAppendValue (GoOther ''float64''),
                          CallAppendBytes None, CallClose] (NewEncoder (failing_writer 1) 2 None)) = 2"
  using C9_counter_invariant [of 2 "failing_writer 1" None
      "[CallAppendBytes (Some [0x41]), CallAppendValue (GoOther ''float64''), CallAppendBytes None, CallClose]"]
  by (simp add: eval_encoder)

subsection \<open>Writing a field\<close>

lemma escapeField_dest_indep:
  "escapeField \<lparr>elems = [], cap = n\<rparr> data = escapeField nil_slice data"
  by (cases data) (simp_all add: escapeField_None escapeField_Some nil_slice_def)

lemma escapeField_AvailableBuffer:
  "escapeField (AvailableBuffer s) data = escapeField nil_slice data"
  by (simp add: AvailableBuffer_def escapeField_dest_indep)

lemma writeField_success:
  assumes "all_succeed (w e)" and "err e = None"
    and "1 \<le> colsLeftInRow e" and "colsLeftInRow e \<le> 2 ^ 63"
  shows "writeField b e =
           e\<lparr>w := (w e)\<lparr>accepted := accepted (w e) @ escapeField nil_slice b
                                     @ [if colsLeftInRow e = 1 then 0x0A else 0x09],
                        calls := Suc (Suc (calls (w e)))\<rparr>,
             colsLeftInRow := (if colsLeftInRow e = 1 then numColumnsPerRow e
                               else colsLeftInRow e - 1)\<rparr>"
proof -
  have g: "go_int (colsLeftInRow e - 1) = colsLeftInRow e - 1"
    using assms(3,4) by (intro go_int_id) simp_all
  have o: "\<And>k. outcome (w e) k = None"
    using assms(1) by (simp add: all_succeed_def)
  show ?thesis
    using assms(2) o g
    by (cases e)
       (simp add: writeField_def Let_def Write_def WriteByte_def escapeField_AvailableBuffer)
qed

lemma perform_append:
  assumes "err e = None" and "appended_field (encoderOptions e) c = Some b"
  shows "perform c e = writeField b e"
proof (cases c)
  case (CallAppendValue v)
  then show ?thesis
    using assms by (cases "valueToBytes v (encoderOptions e)") (simp_all add: AppendValue_def)
qed (use assms in \<open>simp_all add: AppendBytes_def AppendString_def\<close>)

lemma row_bytes_Cons:
  "fs \<noteq> [] \<Longrightarrow> row_bytes (f # fs) = f @ [0x09] @ row_bytes fs"
  by (cases fs) (simp_all add: row_bytes_def)

lemma run_row:
  assumes "all_succeed (w e)" and "err e = None" and "numColumnsPerRow e = N"
    and "N < 2 ^ 63" and "r \<noteq> []" and "colsLeftInRow e = int (length r)"
    and "int (length r) \<le> N"
    and "\<forall>c \<in> set r. appended_field (encoderOptions e) c \<noteq> None"
  shows "run r e =
           e\<lparr>w := (w e)\<lparr>accepted := accepted (w e) @ row_bytes (map (escaped_field (encoderOptions e)) r),
                        calls := calls (w e) + 2 * length r\<rparr>,
             colsLeftInRow := N\<rparr>"
  using assms
proof (induction r arbitrary: e)
  case Nil
  then show ?case by simp
next
  case (Cons c r)
  from Cons.prems(8) obtain b where b: "appended_field (encoderOptions e) c = Some b"
    by auto
  then have f: "escaped_field (encoderOptions e) c = escapeField nil_slice b"
    by (simp add: escaped_field_def)
  have p: "perform c e = writeField b e"
    using Cons.prems(2) b by (rule perform_append)
  have le: "1 \<le> colsLeftInRow e" "colsLeftInRow e \<le> 2 ^ 63"
    using Cons.prems(4,6,7) by simp_all
  note wf = writeField_success [OF Cons.prems(1,2) le, of b]
  show ?case
  proof (cases "r = []")
    case True
    then have "colsLeftInRow e = 1"
      using Cons.prems(6) by simp
    then show ?thesis
      using True p f wf Cons.prems(3) by (simp add: row_bytes_def)
  next
    case False
    then have ne: "colsLeftInRow e \<noteq> 1"
      using Cons.prems(6) by simp
    define e' where "e' = writeField b e"
    have e': "e' = e\<lparr>w := (w e)\<lparr>accepted := accepted (w e) @ escapeField nil_slice b @ [0x09],
                                 calls := Suc (Suc (calls (w e)))\<rparr>,
                      colsLeftInRow := colsLeftInRow e - 1\<rparr>"
      using wf ne by (simp add: e'_def)
    have 1: "all_succeed (w e')"
      using Cons.prems(1) by (simp add: e' all_succeed_def)
    have 2: "err e' = None" "numColumnsPerRow e' = N" "encoderOptions e' = encoderOptions e"
      using Cons.prems(2,3) by (simp_all add: e')
    have 3: "colsLeftInRow e' = int (length r)" "int (length r) \<le> N"
      using Cons.prems(6,7) by (simp_all add: e')
    have 4: "\<forall>c \<in> set r. appended_field (encoderOptions e') c \<noteq> None"
      using Cons.prems(8) 2(3) by simp
    have "run r e' =
            e'\<lparr>w := (w e')\<lparr>accepted := accepted (w e') @ row_bytes (map (escaped_field (encoderOptions e')) r),
                           calls := calls (w e') + 2 * length r\<rparr>,
               colsLeftInRow := N\<rparr>"
      using 1 2(1,2) Cons.prems(4) False 3 4 by (rule Cons.IH)
    moreover have "run (c # r) e = run r e'"
      by (simp add: p e'_def)
    ultimately show ?thesis
      using False by (simp add: e' f row_bytes_Cons)
  qed
qed

lemma run_append: "run (xs @ ys) e = run ys (run xs e)"
  by (induction xs arbitrary: e) simp_all

lemma run_rows:
  assumes "all_succeed (w e)" and "err e = None" and "numColumnsPerRow e = int n"
    and "0 < n" and "int n < 2 ^ 63" and "colsLeftInRow e = int n"
    and "\<forall>r \<in> set rows. length r = n \<and> (\<forall>c \<in> set r. appended_field (encoderOptions e) c \<noteq> None)"
  shows "run (concat rows) e =
           e\<lparr>w := (w e)\<lparr>accepted := accepted (w e)
                          @ concat (map (\<lambda>r. row_bytes (map (escaped_field (encoderOptions e)) r)) rows),
                        calls := calls (w e) + 2 * n * length rows\<rparr>\<rparr>"
  using assms
proof (induction rows arbitrary: e)
  case Nil
  show ?case by simp
next
  case (Cons r rows)
  have r: "length r = n" "\<forall>c \<in> set r. appended_field (encoderOptions e) c \<noteq> None"
    using Cons.prems(7) by simp_all
  then have ne: "r \<noteq> []"
    using Cons.prems(4) by auto
  define e' where "e' = run r e"
  have e': "e' = e\<lparr>w := (w e)\<lparr>accepted := accepted (w e) @ row_bytes (map (escaped_field (encoderOptions e)) r),
                             calls := calls (w e) + 2 * length r\<rparr>,
                  colsLeftInRow := int n\<rparr>"
    unfolding e'_def
    using Cons.prems(1,2,3,5) ne _ _ r(2)
    by (rule run_row) (simp_all add: r(1) Cons.prems(6))
  have 1: "all_succeed (w e')"
    using Cons.prems(1) by (simp add: e' all_succeed_def)
  have 2: "err e' = None" "numColumnsPerRow e' = int n" "colsLeftInRow e' = int n"
    "encoderOptions e' = encoderOptions e"
    using Cons.prems(2,3) by (simp_all add: e')
  have 3: "\<forall>r \<in> set rows. length r = n \<and> (\<forall>c \<in> set r. appended_field (encoderOptions e') c \<noteq> None)"
    using Cons.prems(7) 2(4) by simp
  have "run (concat rows) e' =
          e'\<lparr>w := (w e')\<lparr>accepted := accepted (w e')
                           @ concat (map (\<lambda>r. row_bytes (map (escaped_field (encoderOptions e')) r)) rows),
                         calls := calls (w e') + 2 * n * length rows\<rparr>\<rparr>"
    using 1 2(1,2) Cons.prems(4,5) 2(3) 3 by (rule Cons.IH)
  moreover have "run (concat (r # rows)) e = run (concat rows) e'"
    by (simp add: run_append e'_def)
  ultimately show ?case
    using Cons.prems(6) r(1) by (cases e) (simp add: e')
qed

lemma escaped_field_no_sep: "filter is_sep (escaped_field cfg c) = []"
  by (cases "appended_field cfg c")
     (simp_all add: escaped_field_def nil_slice_def escapeField_no_sep)

lemma escaped_field_no_tab_nl:
  "0x09 \<notin> set (escaped_field cfg c)" "0x0A \<notin> set (escaped_field cfg c)"
  using escaped_field_no_sep [of cfg c]
  by (auto simp: filter_empty_conv is_sep_def)

lemma count_join_fields:
  "\<forall>f \<in> set fs. x \<notin> set f \<Longrightarrow>
     count_list (join_fields fs) x = (if x = 0x09 then length fs - 1 else 0)"
  by (induction fs rule: join_fields.induct) auto

lemma count_row_bytes:
  assumes "fs \<noteq> []" and "\<forall>f \<in> set fs. 0x09 \<notin> set f \<and> 0x0A \<notin> set f"
  shows "count_list (row_bytes fs) 0x0A = 1" and "count_list (row_bytes fs) 0x09 = length fs - 1"
  using assms by (simp_all add: row_bytes_def count_join_fields)

lemma count_rows:
  assumes "0 < n" and "\<forall>r \<in> set rows. length r = n"
  shows "count_list (concat (map (\<lambda>r. row_bytes (map (escaped_field cfg) r)) rows)) 0x0A = length rows
         \<and> count_list (concat (map (\<lambda>r. row_bytes (map (escaped_field cfg) r)) rows)) 0x09
           = n * length rows - length rows"
  using assms(2)
proof (induction rows)
  case Nil
  show ?case by simp
next
  case (Cons r rows)
  have r: "map (escaped_field cfg) r \<noteq> []"
    "\<forall>f \<in> set (map (escaped_field cfg) r). 0x09 \<notin> set f \<and> 0x0A \<notin> set f"
    using Cons.prems assms(1) by (auto simp: escaped_field_no_tab_nl)
  have len: "length r = n" and rest: "\<forall>r \<in> set rows. length r = n"
    using Cons.prems by simp_all
  have "length rows \<le> n * length rows"
    using assms(1) by simp
  then show ?case
    using Cons.IH [OF rest] count_row_bytes [OF r] len assms(1)
    by (simp add: algebra_simps)
qed

subsection \<open>Separators of the stream\<close>

lemma writeField_Write_fails:
  assumes "outcome (w e) (calls (w e)) = Some (j, x)"
  shows "writeField b e =
           e\<lparr>w := (w e)\<lparr>accepted := accepted (w e) @ take j (escapeField nil_slice b),
                        calls := Suc (calls (w e))\<rparr>,
             err := Some x\<rparr>"
  using assms
  by (simp add: writeField_def Let_def Write_def escapeField_AvailableBuffer)

lemma writeField_Write_ok:
  assumes "outcome (w e) (calls (w e)) = None"
    and "1 \<le> colsLeftInRow e" and "colsLeftInRow e \<le> 2 ^ 63"
  shows "writeField b e =
           (case WriteByte (if colsLeftInRow e = 1 then 0x0A else 0x09)
                   (snd (Write (escapeField nil_slice b) (w e))) of
              (r2, s2) \<Rightarrow>
                e\<lparr>w := s2, err := r2,
                  colsLeftInRow := (if colsLeftInRow e = 1 then numColumnsPerRow e
                                    else colsLeftInRow e - 1)\<rparr>)"
proof -
  have g: "go_int (colsLeftInRow e - 1) = colsLeftInRow e - 1"
    using assms(2,3) by (intro go_int_id) simp_all
  show ?thesis
    using assms(1) g
    by (simp add: writeField_def Let_def Write_def escapeField_AvailableBuffer split: prod.splits)
qed

lemma term_seq_Suc: "term_seq n (Suc k) = term_seq n k @ [terminator n k]"
  by (simp add: term_seq_def)

lemma length_term_seq: "length (term_seq n k) = k"
  by (simp add: term_seq_def)

lemma is_sep_terminator: "is_sep (terminator n k)"
  by (simp add: is_sep_def terminator_def)

lemma writeField_seps:
  assumes "0 < n" and "int n < 2 ^ 63" and "err e = None" and "seps_ok n e"
  shows "seps_ok n (writeField b e)"
proof -
  define k where "k = length (filter is_sep (accepted (w e)))"
  have inv: "filter is_sep (accepted (w e)) = term_seq n k" "numColumnsPerRow e = int n"
    "colsLeftInRow e = int (n - k mod n)"
    using assms(3,4) by (simp_all add: seps_ok_def Let_def k_def)
  have m: "k mod n < n"
    using assms(1) by simp
  have f: "filter is_sep (escapeField nil_slice b) = []"
    by (simp add: nil_slice_def escapeField_no_sep)
  show ?thesis
  proof (cases "outcome (w e) (calls (w e))")
    case (Some a)
    obtain j x where "a = (j, x)"
      by (cases a)
    with Some have "outcome (w e) (calls (w e)) = Some (j, x)"
      by simp
    then have "writeField b e =
           e\<lparr>w := (w e)\<lparr>accepted := accepted (w e) @ take j (escapeField nil_slice b),
                        calls := Suc (calls (w e))\<rparr>,
             err := Some x\<rparr>"
      by (rule writeField_Write_fails)
    then show ?thesis
      using inv(1,2) by (simp add: seps_ok_def Let_def filter_sep_take [OF f] length_term_seq)
  next
    case None
    have c: "1 \<le> colsLeftInRow e" "colsLeftInRow e \<le> 2 ^ 63"
      using inv(3) m assms(2) by simp_all
    have one: "colsLeftInRow e = 1 \<longleftrightarrow> Suc k mod n = 0"
      using inv(3) m by (auto simp: mod_Suc)
    have t: "(if colsLeftInRow e = 1 then 0x0A else 0x09) = terminator n k"
      by (simp add: terminator_def one)
    have next_c: "(if colsLeftInRow e = 1 then numColumnsPerRow e else colsLeftInRow e - 1)
                    = int (n - Suc k mod n)"
      using inv(2,3) m one by (auto simp: mod_Suc)
    note wf = writeField_Write_ok [OF None c, of b, unfolded t next_c]
    show ?thesis
    proof (cases "outcome (w e) (Suc (calls (w e)))")
      case None2: None
      then have "writeField b e =
          e\<lparr>w := (w e)\<lparr>accepted := accepted (w e) @ escapeField nil_slice b @ [terminator n k],
                       calls := Suc (Suc (calls (w e)))\<rparr>,
            err := None, colsLeftInRow := int (n - Suc k mod n)\<rparr>"
        using wf None by (simp add: Write_def WriteByte_def)
      then show ?thesis
        using inv(1,2)
        by (simp add: seps_ok_def Let_def f is_sep_terminator term_seq_Suc length_term_seq)
    next
      case (Some a)
      obtain j x where "a = (j, x)"
        by (cases a)
      with Some have "writeField b e =
          e\<lparr>w := (w e)\<lparr>accepted := accepted (w e) @ escapeField nil_slice b,
                       calls := Suc (Suc (calls (w e)))\<rparr>,
            err := Some x, colsLeftInRow := int (n - Suc k mod n)\<rparr>"
        using wf None by (simp add: Write_def WriteByte_def)
      then show ?thesis
        using inv(1,2) by (simp add: seps_ok_def Let_def f length_term_seq)
    qed
  qed
qed

lemma perform_seps:
  assumes "0 < n" and "int n < 2 ^ 63" and "seps_ok n e"
  shows "seps_ok n (perform c e)"
proof (cases "err e = None")
  case False
  then show ?thesis
    using assms(3) by (simp add: perform_latched)
next
  case True
  note wf = writeField_seps [OF assms(1,2) True assms(3)]
  show ?thesis
  proof (cases c)
    case (CallAppendBytes b)
    then show ?thesis
      using True wf by (simp add: AppendBytes_def)
  next
    case (CallAppendString s)
    then show ?thesis
      using True wf by (simp add: AppendString_def AppendBytes_def)
  next
    case (CallAppendValue v)
    show ?thesis
    proof (cases "valueToBytes v (encoderOptions e)")
      case (Inl x)
      then show ?thesis
        using True assms(3) CallAppendValue by (simp add: AppendValue_def seps_ok_def Let_def)
    next
      case (Inr b)
      then show ?thesis
        using True wf CallAppendValue by (simp add: AppendValue_def)
    qed
  next
    case CallClose
    then show ?thesis
      using True assms(3)
      by (auto simp: Close_def Flush_def seps_ok_def Let_def split: option.splits prod.splits)
  next
    case CallError
    then show ?thesis
      using assms(3) by simp
  qed
qed

lemma run_seps:
  "0 < n \<Longrightarrow> int n < 2 ^ 63 \<Longrightarrow> seps_ok n e \<Longrightarrow> seps_ok n (run cs e)"
  by (induction cs arbitrary: e) (simp_all add: perform_seps)

lemma NewEncoder_seps: "0 < n \<Longrightarrow> seps_ok n (NewEncoder wr (int n) cfg)"
  by (simp add: seps_ok_def NewEncoder_def NewWriter_def term_seq_def)

subsection \<open>Row framing\<close>

text \<open>
  C4. For an encoder over \<open>n\<close> columns, \<open>0 < n < 2 ^ 63\<close>: when the field write of
  \<open>writeField\<close> succeeds, the counter is decremented; if it reached zero the one byte
  then written is a newline and the counter is reset to the number of columns, otherwise
  the one byte written is a tab (and the result of that one \<open>WriteByte\<close> is what is
  latched). Hence, on a sink whose calls all succeed, appending \<open>n\<close> fields per row for
  any list of rows leaves exactly the rows on the wire, each as its escaped fields with
  single tabs between them and one newline at the end: as many newlines as rows,
  \<open>n * rows - rows\<close> tabs, no tab before a newline, nothing before the first field or
  after the last newline; no error is latched and the counter is back at \<open>n\<close>.
\<close>

theorem C4_row_framing:
  assumes "0 < n" and "int n < 2 ^ 63" and "\<forall>k. fails wr k = None"
    and "\<forall>r \<in> set rows. length r = n \<and> (\<forall>c \<in> set r. appended_field cfg c \<noteq> None)"
  shows "(\<forall>e b. outcome (w e) (calls (w e)) = None \<and> 1 \<le> colsLeftInRow e
              \<and> colsLeftInRow e \<le> int n \<longrightarrow>
            writeField b e =
              (case WriteByte (if colsLeftInRow e - 1 = 0 then 0x0A else 0x09)
                      (snd (Write (escapeField nil_slice b) (w e))) of
                 (r2, s2) \<Rightarrow>
                   e\<lparr>w := s2, err := r2,
                     colsLeftInRow := (if colsLeftInRow e - 1 = 0 then numColumnsPerRow e
                                       else colsLeftInRow e - 1)\<rparr>))
         \<and> accepted (w (run (concat rows) (NewEncoder wr (int n) cfg)))
             = concat (map (\<lambda>r. row_bytes (map (escaped_field cfg) r)) rows)
         \<and> err (run (concat rows) (NewEncoder wr (int n) cfg)) = None
         \<and> colsLeftInRow (run (concat rows) (NewEncoder wr (int n) cfg)) = int n
         \<and> count_list (accepted (w (run (concat rows) (NewEncoder wr (int n) cfg)))) 0x0A = length rows
         \<and> count_list (accepted (w (run (concat rows) (NewEncoder wr (int n) cfg)))) 0x09
             = n * length rows - length rows"
proof -
  define e0 where "e0 = NewEncoder wr (int n) cfg"
  have step: "writeField b e =
              (case WriteByte (if colsLeftInRow e - 1 = 0 then 0x0A else 0x09)
                      (snd (Write (escapeField nil_slice b) (w e))) of
                 (r2, s2) \<Rightarrow>
                   e\<lparr>w := s2, err := r2,
                     colsLeftInRow := (if colsLeftInRow e - 1 = 0 then numColumnsPerRow e
                                       else colsLeftInRow e - 1)\<rparr>)"
    if "outcome (w e) (calls (w e)) = None" "1 \<le> colsLeftInRow e" "colsLeftInRow e \<le> int n"
    for e b
  proof -
    have "colsLeftInRow e \<le> 2 ^ 63"
      using that(3) assms(2) by simp
    from writeField_Write_ok [OF that(1,2) this, of b] show ?thesis
      by simp
  qed
  have 1: "all_succeed (w e0)" "err e0 = None" "numColumnsPerRow e0 = int n"
    "colsLeftInRow e0 = int n" "encoderOptions e0 = cfg" "accepted (w e0) = []"
    using assms(3) by (simp_all add: e0_def NewEncoder_def NewWriter_def all_succeed_def)
  have 2: "\<forall>r \<in> set rows. length r = n \<and> (\<forall>c \<in> set r. appended_field (encoderOptions e0) c \<noteq> None)"
    using assms(4) 1(5) by simp
  have "run (concat rows) e0 =
           e0\<lparr>w := (w e0)\<lparr>accepted := accepted (w e0)
                          @ concat (map (\<lambda>r. row_bytes (map (escaped_field (encoderOptions e0)) r)) rows),
                        calls := calls (w e0) + 2 * n * length rows\<rparr>\<rparr>"
    using 1(1,2,3) assms(1,2) 1(4) 2 by (rule run_rows)
  then have 3: "accepted (w (run (concat rows) e0))
                  = concat (map (\<lambda>r. row_bytes (map (escaped_field cfg) r)) rows)"
    "err (run (concat rows) e0) = None" "colsLeftInRow (run (concat rows) e0) = int n"
    using 1 by simp_all
  have 4: "\<forall>r \<in> set rows. length r = n"
    using assms(4) by simp
  show ?thesis
    using step 3 count_rows [OF assms(1) 4, of cfg]
    unfolding e0_def by simp
qed

theorem C4_row_framing_witness:
  "accepted (w (run [CallAppendValue (GoInt 0), CallAppendBytes (Some [0xDE, 0xAD]),
                     CallAppendValue (GoInt 1), CallAppendString [0x68, 0x69, 0x09, 0x74]]
                  (NewEncoder ok_writer 2 None)))
     = [0x22, 0x30, 0x22, 0x09, 0x22, 0xDE, 0xAD, 0x22, 0x0A,
        0x22, 0x31, 0x22, 0x09, 0x22, 0x68, 0x69, 0x5C, 0x74, 0x74, 0x22, 0x0A]
   \<and> count_list (accepted (w (run [CallAppendValue (GoInt 0), CallAppendBytes (Some [0xDE, 0xAD]),
                     CallAppendValue (GoInt 1), CallAppendString [0x68, 0x69, 0x09, 0x74]]
                  (NewEncoder ok_writer 2 None)))) 0x0A = 2
   \<and> count_list (accepted (w (run [CallAppendValue (GoInt 0), CallAppendBytes (Some [0xDE, 0xAD]),
                     CallAppendValue (GoInt 1), CallAppendString [0x68, 0x69, 0x09, 0x74]]
                  (NewEncoder ok_writer 2 None)))) 0x09 = 2
   \<and> colsLeftInRow (writeField None (NewEncoder ok_writer 2 None)) = 1
   \<and> accepted (w (writeField None (NewEncoder ok_writer 2 None))) = [0x5C, 0x4E, 0x09]"
proof -
  have h: "0 < (2::nat)" "int 2 < 2 ^ 63" "\<forall>k. fails ok_writer k = None"
    "\<forall>r \<in> set [[CallAppendValue (GoInt 0), CallAppendBytes (Some [0xDE, 0xAD])],
                  [CallAppendValue (GoInt 1), CallAppendString [0x68, 0x69, 0x09, 0x74]]].
       length r = 2 \<and> (\<forall>c \<in> set r. appended_field None c \<noteq> None)"
    by (simp_all add: ok_writer_def)
  have d: "digits 0 = [0x30]" "digits (Suc 0) = [0x31]"
    by (simp_all add: digits.simps)
  note t = C4_row_framing [OF h]
  have s: "outcome (w (NewEncoder ok_writer 2 None)) (calls (w (NewEncoder ok_writer 2 None))) = None
           \<and> 1 \<le> colsLeftInRow (NewEncoder ok_writer 2 None) \<and> colsLeftInRow (NewEncoder ok_writer 2 None) \<le> int 2"
    by (simp add: NewEncoder_def NewWriter_def ok_writer_def)
  from t have "writeField None (NewEncoder ok_writer 2 None) =
              (case WriteByte (if colsLeftInRow (NewEncoder ok_writer 2 None) - 1 = 0 then 0x0A else 0x09)
                      (snd (Write (escapeField nil_slice None) (w (NewEncoder ok_writer 2 None)))) of
                 (r2, s2) \<Rightarrow>
                   (NewEncoder ok_writer 2 None)\<lparr>w := s2, err := r2,
                     colsLeftInRow := (if colsLeftInRow (NewEncoder ok_writer 2 None) - 1 = 0
                                       then numColumnsPerRow (NewEncoder ok_writer 2 None)
                                       else colsLeftInRow (NewEncoder ok_writer 2 None) - 1)\<rparr>)"
    using s by blast
  then have a: "colsLeftInRow (writeField None (NewEncoder ok_writer 2 None)) = 1"
    "accepted (w (writeField None (NewEncoder ok_writer 2 None))) = [0x5C, 0x4E, 0x09]"
    by (simp_all add: NewEncoder_def NewWriter_def ok_writer_def Write_def WriteByte_def escapeField_def)
  from t have b: "accepted (w (run [CallAppendValue (GoInt 0), CallAppendBytes (Some [0xDE, 0xAD]),
                     CallAppendValue (GoInt 1), CallAppendString [0x68, 0x69, 0x09, 0x74]]
                  (NewEncoder ok_writer 2 None)))
     = [0x22, 0x30, 0x22, 0x09, 0x22, 0xDE, 0xAD, 0x22, 0x0A,
        0x22, 0x31, 0x22, 0x09, 0x22, 0x68, 0x69, 0x5C, 0x74, 0x74, 0x22, 0x0A]"
    by (simp add: row_bytes_def escaped_field_def escapeField_Some nil_slice_def escapeByte_def
          FormatInt_def d)
  show ?thesis
    using a b by simp
qed

subsection \<open>Raw separators are terminators\<close>

text \<open>
  C10. The escaped form of a non-nil byte sequence contains no raw tab and no raw
  newline. So in the output of an encoder over \<open>n\<close> columns, after any sequence of
  calls and whatever the sink does, the raw tab and newline bytes, in order, are exactly
  the terminators of the fields written so far: the \<open>i\<close>-th of them is a newline when
  \<open>i + 1\<close> is a multiple of \<open>n\<close> (the end of a row) and a tab otherwise (the end of
  a field inside a row).
\<close>

theorem C10_separators:
  assumes "0 < n" and "int n < 2 ^ 63"
  shows "0x09 \<notin> set (escapeField \<lparr>elems = [], cap = m\<rparr> (Some b))
         \<and> 0x0A \<notin> set (escapeField \<lparr>elems = [], cap = m\<rparr> (Some b))
         \<and> filter is_sep (accepted (w (run cs (NewEncoder wr (int n) cfg))))
             = term_seq n (length (filter is_sep (accepted (w (run cs (NewEncoder wr (int n) cfg))))))"
proof -
  have "filter is_sep (escapeField \<lparr>elems = [], cap = m\<rparr> (Some b)) = []"
    by (rule escapeField_no_sep)
  then have a: "0x09 \<notin> set (escapeField \<lparr>elems = [], cap = m\<rparr> (Some b))"
    "0x0A \<notin> set (escapeField \<lparr>elems = [], cap = m\<rparr> (Some b))"
    by (auto simp: filter_empty_conv is_sep_def)
  have "seps_ok n (run cs (NewEncoder wr (int n) cfg))"
    using assms by (intro run_seps NewEncoder_seps)
  then show ?thesis
    using a by (simp add: seps_ok_def Let_def)
qed

theorem C10_separators_witness:
  "escapeField \<lparr>elems = [], cap = 0\<rparr> (Some [0x09, 0x0A]) = [0x22, 0x5C, 0x74, 0x5C, 0x6E, 0x22]
   \<and> accepted (w (run [CallAppendBytes (Some [0x09, 0x0A]), CallAppendBytes None,
                       CallAppendString [0x61]] (NewEncoder ok_writer 2 None)))
       = [0x22, 0x5C, 0x74, 0x5C, 0x6E, 0x22, 0x09, 0x5C, 0x4E, 0x0A, 0x22, 0x61, 0x22, 0x09]
   \<and> filter is_sep (accepted (w (run [CallAppendBytes (Some [0x09, 0x0A]), CallAppendBytes None,
                       CallAppendString [0x61]] (NewEncoder ok_writer 2 None))))
       = [0x09, 0x0A, 0x09]
   \<and> term_seq 2 3 = [0x09, 0x0A, 0x09]"
proof -
  have h: "0 < (2::nat)" "int 2 < 2 ^ 63"
    by simp_all
  have a: "accepted (w (run [CallAppendBytes (Some [0x09, 0x0A]), CallAppendBytes None,
                       CallAppendString [0x61]] (NewEncoder ok_writer 2 None)))
       = [0x22, 0x5C, 0x74, 0x5C, 0x6E, 0x22, 0x09, 0x5C, 0x4E, 0x0A, 0x22, 0x61, 0x22, 0x09]"
    by (simp add: eval_encoder)
  have "term_seq 2 0 = []"
    by (simp add: term_seq_def)
  then have "term_seq 2 (Suc (Suc (Suc 0))) = [0x09, 0x0A, 0x09]"
    by (simp add: term_seq_Suc terminator_def)
  then have t: "term_seq 2 3 = [0x09, 0x0A, 0x09]"
    by (simp add: numeral_3_eq_3)
  show ?thesis
    using a t
      C10_separators [OF h, of 0 "[0x09, 0x0A]"
        "[CallAppendBytes (Some [0x09, 0x0A]), CallAppendBytes None, CallAppendString [0x61]]"
        ok_writer None]
    by (simp add: is_sep_def escapeField_Some escapeByte_def)
qed

section \<open>Properties of the value converter\<close>

subsection \<open>Date and time values\<close>











subsection \<open>Values that implement driver.Valuer\<close>

text \<open>
  C8. For a value whose type implements \<open>driver.Valuer\<close>, \<open>Value()\<close> is taken
  first. Its error is the result of the conversion, and \<open>AppendValue\<close> then latches it
  and leaves the sink and the counter as they were. Otherwise the returned value goes
  through the type switch: the result is that of converting the returned value, unless
  the returned value is itself a \<open>driver.Valuer\<close>, whose \<open>Value()\<close> is not taken:
  the result is then the error for an unsupported type, whatever that second
  \<open>Value()\<close> would return.
\<close>

theorem C8_valuer:
  "valueToBytes (GoValuer tn v (Some x)) cfg = Inl x
   \<and> (err e = None \<longrightarrow> AppendValue (GoValuer tn v (Some x)) e = e\<lparr>err := Some x\<rparr>)
   \<and> (\<not> is_Valuer v \<longrightarrow> valueToBytes (GoValuer tn v None) cfg = valueToBytes v cfg)
   \<and> valueToBytes (GoValuer tn (GoValuer tn' v' x') None) cfg = Inl (CantEncode tn')"
proof -
  have "valueToBytes (GoValuer tn v None) cfg = valueToBytes v cfg" if "\<not> is_Valuer v"
    using that by (cases v) (simp_all add: is_Valuer_def)
  then show ?thesis
    by (simp add: AppendValue_def)
qed

theorem C8_valuer_witness:
  "valueToBytes (GoValuer ''NullString'' (GoString [0x61]) None) None = Inr (Some [0x61])
   \<and> valueToBytes (GoValuer ''NullString'' GoNil None) None = Inr None
   \<and> valueToBytes (GoValuer ''Broken'' GoNil (Some (ValuerError ''boom''))) None
       = Inl (ValuerError ''boom'')
   \<and> valueToBytes (GoValuer ''Outer'' (GoValuer ''Inner'' (GoString [0x61]) None) None) None
       = Inl (CantEncode ''Inner'')
   \<and> AppendValue (GoValuer ''Broken'' GoNil (Some (ValuerError ''boom''))) (NewEncoder ok_writer 2 None)
       = (NewEncoder ok_writer 2 None)\<lparr>err := Some (ValuerError ''boom'')\<rparr>
   \<and> accepted (w (AppendValue (GoValuer ''Broken'' GoNil (Some (ValuerError ''boom'')))
                     (NewEncoder ok_writer 2 None))) = []"
proof -
  have n: "err (NewEncoder ok_writer 2 None) = None" "accepted (w (NewEncoder ok_writer 2 None)) = []"
    by (simp_all add: NewEncoder_def NewWriter_def)
  show ?thesis
    using n
      C8_valuer [of "''NullString''" "GoString [0x61]" "ValuerError ''boom''" None
                    "NewEncoder ok_writer 2 None" "''Inner''" "GoString [0x61]" None]
      C8_valuer [of "''Broken''" GoNil "ValuerError ''boom''" None
                    "NewEncoder ok_writer 2 None" "''Inner''" "GoString [0x61]" None]
    by (simp add: is_Valuer_def)
qed

end
